theory Spec2Isabelle
  imports Main "HOL-Library.Multiset"
begin

section \<open>The behaviour tree of BehaviourTree.h\<close>

text \<open>
  \<^verbatim>\<open>BehaviourTree::Node\<close> has one virtual member, \<^verbatim>\<open>bool run()\<close>. A call of
  \<^verbatim>\<open>run()\<close> acts on everything the node can reach through its references (the
  caller's stacks and pointer variables, \<^verbatim>\<open>std::cout\<close>, the state of \<^verbatim>\<open>std::rand\<close>);
  that is the world \<open>'s\<close>. A call has one of three ends:
  \<^item> it returns a verdict and leaves a new world: \<open>Some (Returns (b, w'))\<close>;
  \<^item> it runs into undefined behaviour (a null or dangling pointer is dereferenced, a
    signed integer overflows): \<open>Some Fault\<close>;
  \<^item> it never returns: \<open>None\<close>.
  A \<^verbatim>\<open>Node*\<close> held by a composite or a decorator is taken to point to a live node,
  so a child is the \<^verbatim>\<open>run()\<close> of its node.
\<close>

datatype 'a outcome = Returns 'a | Fault

type_synonym 's Node = "'s \<Rightarrow> (bool \<times> 's) outcome option"

subsection \<open>CompositeNode\<close>

text \<open>
  \<^verbatim>\<open>std::vector<Node*> children\<close> is the one field of a composite.
  \<^verbatim>\<open>addChild\<close> appends (\<^verbatim>\<open>emplace_back\<close>), \<^verbatim>\<open>addChildren\<close> appends each
  element in turn.
\<close>

record 's CompositeNode =
  children :: "'s Node list"

definition getChildren :: "'s CompositeNode \<Rightarrow> 's Node list" where
  "getChildren self = children self"

definition addChild :: "'s CompositeNode \<Rightarrow> 's Node \<Rightarrow> 's CompositeNode" where
  "addChild self child = self\<lparr>children := children self @ [child]\<rparr>"

fun addChildren :: "'s CompositeNode \<Rightarrow> 's Node list \<Rightarrow> 's CompositeNode" where
  "addChildren self [] = self"
| "addChildren self (child # newChildren) = addChildren (addChild self child) newChildren"

text \<open>
  \<^verbatim>\<open>childrenShuffled() const\<close> copies \<^verbatim>\<open>children\<close> into the local \<^verbatim>\<open>temp\<close>, hands
  \<^verbatim>\<open>temp\<close> to \<^verbatim>\<open>std::random_shuffle\<close> and returns it. \<^verbatim>\<open>std::random_shuffle\<close> is
  the standard library's: it is the parameter \<open>random_shuffle\<close>, which takes the world
  (the random source lives there) and the vector, and gives the reordered vector and
  the new world.
\<close>

definition childrenShuffled ::
  "('s \<Rightarrow> 's Node list \<Rightarrow> 's Node list \<times> 's) \<Rightarrow> 's CompositeNode \<Rightarrow> 's \<Rightarrow> 's Node list \<times> 's"
where
  "childrenShuffled random_shuffle self w =
     (let temp = children self in random_shuffle w temp)"

subsection \<open>Selector, RandomSelector, Sequence\<close>

text \<open>
  The range-for of \<^verbatim>\<open>Selector::run\<close> and of \<^verbatim>\<open>RandomSelector::run\<close>: run the next
  child; \<^verbatim>\<open>return true\<close> as soon as one returns true; \<^verbatim>\<open>return false\<close> after the
  last one.
\<close>

fun Selector_loop :: "'s Node list \<Rightarrow> 's \<Rightarrow> (bool \<times> 's) outcome option" where
  "Selector_loop [] w = Some (Returns (False, w))"
| "Selector_loop (child # rest) w =
     (case child w of
        None \<Rightarrow> None
      | Some Fault \<Rightarrow> Some Fault
      | Some (Returns (b, w')) \<Rightarrow>
          if b then Some (Returns (True, w')) else Selector_loop rest w')"

text \<open>
  The range-for of \<^verbatim>\<open>Sequence::run\<close>: \<^verbatim>\<open>return false\<close> as soon as one child
  returns false; \<^verbatim>\<open>return true\<close> after the last one.
\<close>

fun Sequence_loop :: "'s Node list \<Rightarrow> 's \<Rightarrow> (bool \<times> 's) outcome option" where
  "Sequence_loop [] w = Some (Returns (True, w))"
| "Sequence_loop (child # rest) w =
     (case child w of
        None \<Rightarrow> None
      | Some Fault \<Rightarrow> Some Fault
      | Some (Returns (b, w')) \<Rightarrow>
          if \<not> b then Some (Returns (False, w')) else Sequence_loop rest w')"

text \<open>
  \<^verbatim>\<open>run()\<close> is a non-const member of the composite, so the model gives back the
  composite after the call beside the verdict and the world. None of the three
  bodies assigns \<^verbatim>\<open>children\<close>.
\<close>

definition Selector_run ::
  "'s CompositeNode \<Rightarrow> 's \<Rightarrow> (bool \<times> 's CompositeNode \<times> 's) outcome option"
where
  "Selector_run self w =
     (case Selector_loop (getChildren self) w of
        None \<Rightarrow> None
      | Some Fault \<Rightarrow> Some Fault
      | Some (Returns (b, w')) \<Rightarrow> Some (Returns (b, self, w')))"

definition RandomSelector_run ::
  "('s \<Rightarrow> 's Node list \<Rightarrow> 's Node list \<times> 's) \<Rightarrow>
   's CompositeNode \<Rightarrow> 's \<Rightarrow> (bool \<times> 's CompositeNode \<times> 's) outcome option"
where
  "RandomSelector_run random_shuffle self w =
     (case childrenShuffled random_shuffle self w of
        (temp, w1) \<Rightarrow>
          (case Selector_loop temp w1 of
             None \<Rightarrow> None
           | Some Fault \<Rightarrow> Some Fault
           | Some (Returns (b, w')) \<Rightarrow> Some (Returns (b, self, w'))))"

definition Sequence_run ::
  "'s CompositeNode \<Rightarrow> 's \<Rightarrow> (bool \<times> 's CompositeNode \<times> 's) outcome option"
where
  "Sequence_run self w =
     (case Sequence_loop (getChildren self) w of
        None \<Rightarrow> None
      | Some Fault \<Rightarrow> Some Fault
      | Some (Returns (b, w')) \<Rightarrow> Some (Returns (b, self, w')))"

subsection \<open>DecoratorNode\<close>

text \<open>\<^verbatim>\<open>Node* child\<close> is the one field of a decorator.\<close>

record 's DecoratorNode =
  child :: "'s Node"

definition getChild :: "('s, 'z) DecoratorNode_scheme \<Rightarrow> 's Node" where
  "getChild self = child self"

definition setChild ::
  "('s, 'z) DecoratorNode_scheme \<Rightarrow> 's Node \<Rightarrow> ('s, 'z) DecoratorNode_scheme"
where
  "setChild self newChild = self\<lparr>child := newChild\<rparr>"

text \<open>\<^verbatim>\<open>Root::run\<close>: \<^verbatim>\<open>return getChild()->run();\<close>\<close>

definition Root_run :: "'s DecoratorNode \<Rightarrow> 's Node" where
  "Root_run self w = getChild self w"

text \<open>\<^verbatim>\<open>Inverter::run\<close>: \<^verbatim>\<open>return !getChild()->run();\<close>\<close>

definition Inverter_run :: "'s DecoratorNode \<Rightarrow> 's Node" where
  "Inverter_run self w =
     (case getChild self w of
        None \<Rightarrow> None
      | Some Fault \<Rightarrow> Some Fault
      | Some (Returns (b, w')) \<Rightarrow> Some (Returns (\<not> b, w')))"

text \<open>\<^verbatim>\<open>Succeeder::run\<close>: \<^verbatim>\<open>getChild()->run();  return true;\<close>\<close>

definition Succeeder_run :: "'s DecoratorNode \<Rightarrow> 's Node" where
  "Succeeder_run self w =
     (case getChild self w of
        None \<Rightarrow> None
      | Some Fault \<Rightarrow> Some Fault
      | Some (Returns (b, w')) \<Rightarrow> Some (Returns (True, w')))"

text \<open>\<^verbatim>\<open>Failer::run\<close>: \<^verbatim>\<open>getChild()->run();  return false;\<close>\<close>

definition Failer_run :: "'s DecoratorNode \<Rightarrow> 's Node" where
  "Failer_run self w =
     (case getChild self w of
        None \<Rightarrow> None
      | Some Fault \<Rightarrow> Some Fault
      | Some (Returns (b, w')) \<Rightarrow> Some (Returns (False, w')))"

subsection \<open>Repeater\<close>

text \<open>
  \<^verbatim>\<open>int numRepeats\<close> is a 32-bit signed integer: the model keeps its value as an
  \<open>int\<close> and marks the one place where the arithmetic of \<^verbatim>\<open>run\<close> can leave the
  range, \<^verbatim>\<open>numRepeats - 1\<close> at \<^verbatim>\<open>INT_MIN\<close>, as undefined behaviour. The counter
  \<^verbatim>\<open>i\<close> stays below \<^verbatim>\<open>numRepeats - 1\<close>, so \<^verbatim>\<open>i++\<close> never overflows.
\<close>

record 's Repeater = "'s DecoratorNode" +
  numRepeats :: int

definition NOT_FOUND :: int where
  "NOT_FOUND = - 1"

text \<open>
  \<^verbatim>\<open>while (true) getChild()->run();\<close> has no exit: when every call of the child
  returns, the loop never does.
\<close>

partial_function (option) Repeater_forever :: "'s Node \<Rightarrow> 's \<Rightarrow> (bool \<times> 's) outcome option"
where
  "Repeater_forever c w =
     (case c w of
        None \<Rightarrow> None
      | Some Fault \<Rightarrow> Some Fault
      | Some (Returns (b, w')) \<Rightarrow> Repeater_forever c w')"

text \<open>
  \<^verbatim>\<open>for (int i = 0; i < numRepeats - 1; i++) getChild()->run();\<close> with
  \<open>bound\<close> for \<^verbatim>\<open>numRepeats - 1\<close>; the result of each call is dropped.
\<close>

function Repeater_for :: "'s Node \<Rightarrow> int \<Rightarrow> int \<Rightarrow> 's \<Rightarrow> 's outcome option" where
  "Repeater_for c bound i w =
     (if i < bound then
        (case c w of
           None \<Rightarrow> None
         | Some Fault \<Rightarrow> Some Fault
         | Some (Returns (b, w')) \<Rightarrow> Repeater_for c bound (i + 1) w')
      else Some (Returns w))"
  by pat_completeness auto
termination
  by (relation "measure (\<lambda>(c, bound, i, w). nat (bound - i))") auto

definition Repeater_run :: "'s Repeater \<Rightarrow> 's Node" where
  "Repeater_run self w =
     (if numRepeats self = NOT_FOUND then Repeater_forever (getChild self) w
      else if numRepeats self - 1 < - (2 ^ 31) then Some Fault
      else
        (case Repeater_for (getChild self) (numRepeats self - 1) 0 w of
           None \<Rightarrow> None
         | Some Fault \<Rightarrow> Some Fault
         | Some (Returns w') \<Rightarrow> getChild self w'))"

subsection \<open>RepeatUntilFail\<close>

text \<open>
  \<^verbatim>\<open>while (getChild()->run()) {}  return true;\<close> One unfolding is one evaluation of
  the loop condition.
\<close>

partial_function (option) RepeatUntilFail_run ::
  "'s DecoratorNode \<Rightarrow> 's \<Rightarrow> (bool \<times> 's) outcome option"
where
  "RepeatUntilFail_run self w =
     (case getChild self w of
        None \<Rightarrow> None
      | Some Fault \<Rightarrow> Some Fault
      | Some (Returns (b, w')) \<Rightarrow>
          if b then RepeatUntilFail_run self w' else Some (Returns (True, w')))"

subsection \<open>The blackboard: pointers, stacks, pointer variables, output\<close>

text \<open>
  The leaves are templates over \<^verbatim>\<open>T\<close>, and two of them read \<^verbatim>\<open>->doorNumber\<close>:
  \<^verbatim>\<open>T\<close> is \<^verbatim>\<open>Door\<close>, as the source's comments say. A \<^verbatim>\<open>T*\<close> is null or an
  address; the heap gives the live objects. A leaf holds references to the caller's
  variables (\<^verbatim>\<open>std::stack<T*>&\<close>, \<^verbatim>\<open>T*&\<close>), so the world keeps these variables
  by identity: two references with the same number are the same variable. A stack is
  the list of its elements, top first. \<^verbatim>\<open>std::cout\<close> is the list of what
  \<^verbatim>\<open>operator<<\<close> has been given so far.
\<close>

datatype ptr = nullptr | Ptr nat

record Door =
  doorNumber :: int

datatype token = Str string | Num int | Endl

record world =
  heap :: "nat \<rightharpoonup> Door"
  stacks :: "nat \<Rightarrow> ptr list"
  slots :: "nat \<Rightarrow> ptr"
  cout :: "token list"

text \<open>\<open>p->\<close> : the object behind a pointer, if the pointer is neither null nor dangling.\<close>

definition deref :: "world \<Rightarrow> ptr \<Rightarrow> Door option" where
  "deref w p = (case p of nullptr \<Rightarrow> None | Ptr a \<Rightarrow> heap w a)"

subsection \<open>The leaves\<close>

record StackNode =
  stack :: nat

record PushToStack = StackNode +
  item :: nat

text \<open>\<^verbatim>\<open>PushToStack::run\<close>: \<^verbatim>\<open>this->stack.push(item);  return true;\<close>\<close>

definition PushToStack_run :: "PushToStack \<Rightarrow> world Node" where
  "PushToStack_run self w =
     Some (Returns (True,
       w\<lparr>stacks := (stacks w)(stack self := slots w (item self) # stacks w (stack self))\<rparr>))"

record GetStack = StackNode +
  obtainedStack :: nat
  object :: ptr

text \<open>
  \<^verbatim>\<open>GetStack::run\<close>: \<^verbatim>\<open>this->stack = obtainedStack;\<close> copies the elements;
  \<^verbatim>\<open>if (object) this->stack.push(object);\<close>
\<close>

definition GetStack_run :: "GetStack \<Rightarrow> world Node" where
  "GetStack_run self w =
     (let w1 = w\<lparr>stacks := (stacks w)(stack self := stacks w (obtainedStack self))\<rparr>;
          w2 = (if object self \<noteq> nullptr
                then w1\<lparr>stacks := (stacks w1)(stack self := object self # stacks w1 (stack self))\<rparr>
                else w1)
      in Some (Returns (True, w2)))"

record PopFromStack = StackNode +
  item :: nat

text \<open>
  \<^verbatim>\<open>PopFromStack::run\<close>: the emptiness test and its \<^verbatim>\<open>return false\<close>; then
  \<^verbatim>\<open>item = this->stack.top();\<close>, the line that prints \<^verbatim>\<open>item->doorNumber\<close>,
  \<^verbatim>\<open>this->stack.pop();\<close> and \<^verbatim>\<open>return true\<close>.
\<close>

definition PopFromStack_run :: "PopFromStack \<Rightarrow> world Node" where
  "PopFromStack_run self w =
     (if stacks w (stack self) = [] then Some (Returns (False, w))
      else
        (let w1 = w\<lparr>slots := (slots w)(item self := hd (stacks w (stack self)))\<rparr> in
         case deref w1 (slots w1 (item self)) of
           None \<Rightarrow> Some Fault
         | Some d \<Rightarrow>
             (let w2 = w1\<lparr>cout := cout w1 @
                         [Str ''Trying to get through door #'', Num (doorNumber d), Str ''.'', Endl]\<rparr>;
                  w3 = w2\<lparr>stacks := (stacks w2)(stack self := tl (stacks w2 (stack self)))\<rparr>
              in Some (Returns (True, w3)))))"

text \<open>\<^verbatim>\<open>StackIsEmpty::run\<close>: \<^verbatim>\<open>return this->stack.empty();\<close>\<close>

definition StackIsEmpty_run :: "StackNode \<Rightarrow> world Node" where
  "StackIsEmpty_run self w = Some (Returns (stacks w (stack self) = [], w))"

record IsNull =
  object :: nat

text \<open>\<^verbatim>\<open>IsNull::run\<close>: \<^verbatim>\<open>return !object;\<close>\<close>

definition IsNull_run :: "IsNull \<Rightarrow> world Node" where
  "IsNull_run self w = Some (Returns (slots w (object self) = nullptr, w))"

record SetVariable =
  variable :: nat
  object :: nat

text \<open>
  \<^verbatim>\<open>SetVariable::run\<close>: \<^verbatim>\<open>variable = object;\<close>, the line that prints
  \<^verbatim>\<open>variable->doorNumber\<close>, and \<^verbatim>\<open>return true\<close>.
\<close>

definition SetVariable_run :: "SetVariable \<Rightarrow> world Node" where
  "SetVariable_run self w =
     (let w1 = w\<lparr>slots := (slots w)(variable self := slots w (object self))\<rparr> in
      case deref w1 (slots w1 (variable self)) of
        None \<Rightarrow> Some Fault
      | Some d \<Rightarrow>
          Some (Returns (True,
            w1\<lparr>cout := cout w1 @
              [Str ''The door that was used to get in is door #'', Num (doorNumber d),
               Str ''.'', Endl]\<rparr>)))"

subsection \<open>Stub children for stating what a node does with its children\<close>

text \<open>
  \<open>returning c\<close> is a child whose \<^verbatim>\<open>run()\<close> always returns: verdict and new world
  are those of \<open>c\<close>. \<open>stub b f\<close> is the child that returns the fixed verdict \<open>b\<close> and
  changes the world by \<open>f\<close>.
\<close>

definition returning :: "('s \<Rightarrow> bool \<times> 's) \<Rightarrow> 's Node" where
  "returning c = (\<lambda>w. Some (Returns (c w)))"

definition stub :: "bool \<Rightarrow> ('s \<Rightarrow> 's) \<Rightarrow> 's Node" where
  "stub b f = returning (\<lambda>w. (b, f w))"

text \<open>
  \<open>traced i c\<close> is the child \<open>c\<close> with a call log beside its world: each call that
  returns has appended the child's number \<open>i\<close> to the log. \<open>counted c\<close> keeps a call
  counter instead.
\<close>

definition traced :: "nat \<Rightarrow> 's Node \<Rightarrow> ('s \<times> nat list) Node" where
  "traced i c = (\<lambda>(w, log).
     case c w of
       None \<Rightarrow> None
     | Some Fault \<Rightarrow> Some Fault
     | Some (Returns (b, w')) \<Rightarrow> Some (Returns (b, (w', log @ [i]))))"

definition counted :: "'s Node \<Rightarrow> ('s \<times> nat) Node" where
  "counted c = (\<lambda>(w, n).
     case c w of
       None \<Rightarrow> None
     | Some Fault \<Rightarrow> Some Fault
     | Some (Returns (b, w')) \<Rightarrow> Some (Returns (b, (w', Suc n))))"

text \<open>
  A child that always returns has a sequence of results from a world \<open>w\<close> on:
  \<open>world_after c n w\<close> is the world after \<open>n\<close> calls, and \<open>nth_result c n w\<close> the
  verdict of the call after these, that is of call number \<open>n + 1\<close>.
\<close>

definition world_after :: "('s \<Rightarrow> bool \<times> 's) \<Rightarrow> nat \<Rightarrow> 's \<Rightarrow> 's" where
  "world_after c n w = ((\<lambda>v. snd (c v)) ^^ n) w"

definition nth_result :: "('s \<Rightarrow> bool \<times> 's) \<Rightarrow> nat \<Rightarrow> 's \<Rightarrow> bool" where
  "nth_result c n w = fst (c (world_after c n w))"

text \<open>
  \<open>probes i ps\<close> are children numbered \<open>i\<close>, \<open>i + 1\<close>, ... of a composite: the
  child numbered \<open>j\<close> returns the verdict \<open>fst (ps ! (j - i))\<close>, changes the world
  by \<open>snd (ps ! (j - i))\<close> and logs \<open>j\<close>.
\<close>

fun probes :: "nat \<Rightarrow> (bool \<times> ('s \<Rightarrow> 's)) list \<Rightarrow> ('s \<times> nat list) Node list" where
  "probes i [] = []"
| "probes i (p # ps) = traced i (stub (fst p) (snd p)) # probes (Suc i) ps"

text \<open>
  The children a short-circuiting composite gets to evaluate: those up to and
  including the first one whose verdict is \<open>v\<close> (true for Selector, false for
  Sequence); all of them when there is none.
\<close>

definition upto_first :: "bool \<Rightarrow> (bool \<times> 'a) list \<Rightarrow> (bool \<times> 'a) list" where
  "upto_first v ps = take (Suc (length (takeWhile (\<lambda>p. fst p \<noteq> v) ps))) ps"

text \<open>
  \<open>stubs ps\<close> are children with the fixed verdicts \<open>map fst ps\<close> and the effects
  \<open>map snd ps\<close>, without a log. \<open>fixed_verdict c b\<close>: the child \<open>c\<close> returns the
  verdict \<open>b\<close> in whatever world it is called, so its result does not depend on what
  was evaluated before it.
\<close>

definition stubs :: "(bool \<times> ('s \<Rightarrow> 's)) list \<Rightarrow> 's Node list" where
  "stubs ps = map (\<lambda>p. stub (fst p) (snd p)) ps"

definition fixed_verdict :: "'s Node \<Rightarrow> bool \<Rightarrow> bool" where
  "fixed_verdict c b = (\<forall>w. \<exists>w'. c w = Some (Returns (b, w')))"

text \<open>
  What the owner of a stack may do to it between two runs: \<open>assign_stack s xs\<close> gives
  the stack \<open>s\<close> the new contents \<open>xs\<close>. \<open>world0\<close> is a world to start from: no
  objects, empty stacks, null pointer variables (as \<^verbatim>\<open>usedDoor = nullptr\<close> in the
  example's \<^verbatim>\<open>DataContext\<close>), no output.
\<close>

definition assign_stack :: "nat \<Rightarrow> ptr list \<Rightarrow> world \<Rightarrow> world" where
  "assign_stack s xs w = w\<lparr>stacks := (stacks w)(s := xs)\<rparr>"

definition world0 :: world where
  "world0 = \<lparr>heap = Map.empty, stacks = (\<lambda>s. []), slots = (\<lambda>v. nullptr), cout = []\<rparr>"

section \<open>Selector and Sequence\<close>

lemma traced_stub:
  "traced i (stub b f) (w, log) = Some (Returns (b, (f w, log @ [i])))"
  by (simp add: traced_def stub_def returning_def)

lemma upto_first_Nil: "upto_first v [] = []"
  by (simp add: upto_first_def)

lemma upto_first_Cons:
  "upto_first v (p # ps) = (if fst p = v then [p] else p # upto_first v ps)"
  by (simp add: upto_first_def)

lemma Selector_loop_probes:
  "Selector_loop (probes i ps) (w, log) =
     Some (Returns (True \<in> set (map fst ps),
       (fold snd (upto_first True ps) w, log @ [i ..< i + length (upto_first True ps)])))"
proof (induction ps arbitrary: i w log)
  case Nil
  show ?case by (simp add: upto_first_Nil)
next
  case (Cons p ps)
  show ?case
  proof (cases "fst p")
    case True
    then show ?thesis
      by (simp add: traced_stub upto_first_Cons)
  next
    case False
    have "[i ..< i + Suc (length (upto_first True ps))] =
          i # [Suc i ..< i + Suc (length (upto_first True ps))]"
      by (rule upt_conv_Cons) simp
    then have upt: "[i ..< i + length (p # upto_first True ps)] =
          i # [Suc i ..< Suc i + length (upto_first True ps)]"
      by (simp only: list.size add_Suc add_Suc_right add_0_right)
    have "Selector_loop (probes i (p # ps)) (w, log) =
          Selector_loop (probes (Suc i) ps) (snd p w, log @ [i])"
      using False by (simp add: traced_stub)
    also have "\<dots> = Some (Returns (True \<in> set (map fst ps),
         (fold snd (upto_first True ps) (snd p w),
          (log @ [i]) @ [Suc i ..< Suc i + length (upto_first True ps)])))"
      by (rule Cons.IH)
    also have "\<dots> = Some (Returns (True \<in> set (map fst (p # ps)),
         (fold snd (upto_first True (p # ps)) w,
          log @ [i ..< i + length (upto_first True (p # ps))])))"
    proof -
      have uf: "upto_first True (p # ps) = p # upto_first True ps"
        using False by (simp add: upto_first_Cons)
      have "fold snd (upto_first True (p # ps)) w = fold snd (upto_first True ps) (snd p w)"
        by (simp add: uf)
      moreover have "(True \<in> set (map fst (p # ps))) = (True \<in> set (map fst ps))"
        using False by auto
      moreover have "log @ [i ..< i + length (upto_first True (p # ps))] =
            (log @ [i]) @ [Suc i ..< Suc i + length (upto_first True ps)]"
        by (simp only: uf upt) simp
      ultimately show ?thesis by (simp only:)
    qed
    finally show ?thesis .
  qed
qed

text \<open>
  C1. A Selector whose children number 0, 1, ... return the verdicts \<open>map fst ps\<close>
  returns true iff one of the verdicts is true. The call log shows which children
  were evaluated and in which order: exactly child 0 up to the first child with
  verdict true, in list order, and none after it; the world has seen the effects of
  exactly these children. With zero children the Selector returns false and evaluates
  nothing.
\<close>

theorem Selector_run_first_success:
  "Selector_run \<lparr>children = probes 0 ps\<rparr> (w, []) =
     Some (Returns (True \<in> set (map fst ps), \<lparr>children = probes 0 ps\<rparr>,
       (fold snd (upto_first True ps) w, [0 ..< length (upto_first True ps)])))
   \<and> Selector_run \<lparr>children = []\<rparr> w0 = Some (Returns (False, \<lparr>children = []\<rparr>, w0))"
  using Selector_loop_probes [of 0 ps w "[]"]
  by (simp add: Selector_run_def getChildren_def)

theorem Selector_run_first_success_witness:
  "Selector_run \<lparr>children = probes 0 [(False, Suc), (True, (\<lambda>n. 2 * n)), (True, Suc), (False, Suc)]\<rparr>
     (5::nat, []) =
   Some (Returns (True,
     \<lparr>children = probes 0 [(False, Suc), (True, (\<lambda>n. 2 * n)), (True, Suc), (False, Suc)]\<rparr>,
     (12, [0, 1])))"
  using Selector_run_first_success
    [of "[(False, Suc), (True, (\<lambda>n. 2 * n)), (True, Suc), (False, Suc)]" "5::nat" "()"]
  by (simp add: upto_first_def upt_rec)

lemma Sequence_loop_probes:
  "Sequence_loop (probes i ps) (w, log) =
     Some (Returns (False \<notin> set (map fst ps),
       (fold snd (upto_first False ps) w, log @ [i ..< i + length (upto_first False ps)])))"
proof (induction ps arbitrary: i w log)
  case Nil
  show ?case by (simp add: upto_first_Nil)
next
  case (Cons p ps)
  show ?case
  proof (cases "fst p")
    case False
    then show ?thesis
      by (simp add: traced_stub upto_first_Cons)
  next
    case True
    have uf: "upto_first False (p # ps) = p # upto_first False ps"
      using True by (simp add: upto_first_Cons)
    have "[i ..< i + Suc (length (upto_first False ps))] =
          i # [Suc i ..< i + Suc (length (upto_first False ps))]"
      by (rule upt_conv_Cons) simp
    then have upt: "[i ..< i + length (p # upto_first False ps)] =
          i # [Suc i ..< Suc i + length (upto_first False ps)]"
      by (simp only: list.size add_Suc add_Suc_right add_0_right)
    have "Sequence_loop (probes i (p # ps)) (w, log) =
          Sequence_loop (probes (Suc i) ps) (snd p w, log @ [i])"
      using True by (simp add: traced_stub)
    also have "\<dots> = Some (Returns (False \<notin> set (map fst ps),
         (fold snd (upto_first False ps) (snd p w),
          (log @ [i]) @ [Suc i ..< Suc i + length (upto_first False ps)])))"
      by (rule Cons.IH)
    also have "\<dots> = Some (Returns (False \<notin> set (map fst (p # ps)),
         (fold snd (upto_first False (p # ps)) w,
          log @ [i ..< i + length (upto_first False (p # ps))])))"
    proof -
      have "fold snd (upto_first False (p # ps)) w = fold snd (upto_first False ps) (snd p w)"
        by (simp add: uf)
      moreover have "(False \<notin> set (map fst (p # ps))) = (False \<notin> set (map fst ps))"
        using True by auto
      moreover have "log @ [i ..< i + length (upto_first False (p # ps))] =
            (log @ [i]) @ [Suc i ..< Suc i + length (upto_first False ps)]"
        by (simp only: uf upt) simp
      ultimately show ?thesis by (simp only:)
    qed
    finally show ?thesis .
  qed
qed

text \<open>
  C2. A Sequence whose children number 0, 1, ... return the verdicts \<open>map fst ps\<close>
  returns true iff none of the verdicts is false, that is iff all are true. The call
  log shows which children were evaluated and in which order: exactly child 0 up to
  the first child with verdict false, in list order, and none after it; the world has
  seen the effects of exactly these children. With zero children the Sequence returns
  true and evaluates nothing.
\<close>

theorem Sequence_run_first_failure:
  "Sequence_run \<lparr>children = probes 0 ps\<rparr> (w, []) =
     Some (Returns (False \<notin> set (map fst ps), \<lparr>children = probes 0 ps\<rparr>,
       (fold snd (upto_first False ps) w, [0 ..< length (upto_first False ps)])))
   \<and> Sequence_run \<lparr>children = []\<rparr> w0 = Some (Returns (True, \<lparr>children = []\<rparr>, w0))"
  using Sequence_loop_probes [of 0 ps w "[]"]
  by (simp add: Sequence_run_def getChildren_def)

theorem Sequence_run_first_failure_witness:
  "Sequence_run \<lparr>children = probes 0 [(True, Suc), (True, (\<lambda>n. 2 * n)), (False, Suc), (True, Suc)]\<rparr>
     (5::nat, []) =
   Some (Returns (False,
     \<lparr>children = probes 0 [(True, Suc), (True, (\<lambda>n. 2 * n)), (False, Suc), (True, Suc)]\<rparr>,
     (13, [0, 1, 2])))"
  using Sequence_run_first_failure
    [of "[(True, Suc), (True, (\<lambda>n. 2 * n)), (False, Suc), (True, Suc)]" "5::nat" "()"]
  by (simp add: upto_first_def upt_rec)

section \<open>SetVariable\<close>

lemma SetVariable_run_live:
  "slots w (SetVariable.object self) = Ptr a \<Longrightarrow> heap w a = Some d \<Longrightarrow>
   SetVariable_run self w =
     Some (Returns (True,
       w\<lparr>slots := (slots w)(variable self := Ptr a),
         cout := cout w @ [Str ''The door that was used to get in is door #'',
                           Num (doorNumber d), Str ''.'', Endl]\<rparr>))"
  by (simp add: SetVariable_run_def deref_def Let_def)

text \<open>
  C3. The claim: every call of \<^verbatim>\<open>SetVariable::run\<close>, also one whose source variable
  holds a null pointer, copies the source into the destination, prints the line about
  the copied value and returns true. The code at a null source (variable 1 of
  \<open>world0\<close>): the copy makes the destination null, and the line that prints
  \<^verbatim>\<open>variable->doorNumber\<close> dereferences it. The call does not return true.
\<close>

theorem SetVariable_run_null_source:
  "SetVariable_run \<lparr>variable = 0, object = 1\<rparr> world0 = Some Fault"
  by (simp add: SetVariable_run_def deref_def world0_def)

section \<open>PopFromStack\<close>

lemma PopFromStack_run_empty:
  "stacks w (stack self) = [] \<Longrightarrow> PopFromStack_run self w = Some (Returns (False, w))"
  by (simp add: PopFromStack_run_def)

lemma PopFromStack_run_live_top:
  "stacks w (stack self) = Ptr a # rest \<Longrightarrow> heap w a = Some d \<Longrightarrow>
   PopFromStack_run self w =
     Some (Returns (True,
       w\<lparr>slots := (slots w)(item self := Ptr a),
         cout := cout w @ [Str ''Trying to get through door #'', Num (doorNumber d), Str ''.'', Endl],
         stacks := (stacks w)(stack self := rest)\<rparr>))"
  by (simp add: PopFromStack_run_def deref_def Let_def)

text \<open>
  C4. The claim: on an empty stack \<^verbatim>\<open>PopFromStack::run\<close> returns false and changes
  neither the stack nor the variable; on a non-empty stack it removes the top
  element, stores it in the variable and returns true. The first half and the second
  half for a top element that points to a live object are the two lemmas above. The
  code at a non-empty stack whose top element is a null pointer, as
  \<^verbatim>\<open>PushToStack\<close> leaves it when its variable is null: the line that prints
  \<^verbatim>\<open>item->doorNumber\<close> dereferences the null pointer before the pop. The call does
  not return true.
\<close>

theorem PopFromStack_run_null_top:
  "PushToStack_run \<lparr>stack = 0, PushToStack.item = 0\<rparr> world0 =
     Some (Returns (True, assign_stack 0 [nullptr] world0))
   \<and> PopFromStack_run \<lparr>stack = 0, item = 1\<rparr> (assign_stack 0 [nullptr] world0) = Some Fault"
  by (simp add: PushToStack_run_def PopFromStack_run_def deref_def assign_stack_def world0_def)

section \<open>Repeater\<close>

lemma counted_returning:
  "counted (returning c) (w, n) = Some (Returns (fst (c w), (snd (c w), Suc n)))"
  by (simp add: counted_def returning_def split: prod.splits)

lemma world_after_0: "world_after c 0 w = w"
  by (simp add: world_after_def)

lemma world_after_Suc: "world_after c (Suc n) w = world_after c n (snd (c w))"
  unfolding world_after_def by (simp only: funpow_Suc_right o_apply)

lemma world_after_step: "world_after c (Suc n) w = snd (c (world_after c n w))"
  by (simp add: world_after_def)

lemma nth_result_Suc: "nth_result c (Suc n) w = nth_result c n (snd (c w))"
  by (simp add: nth_result_def world_after_Suc)

text \<open>The for loop calls the child once for each value of the counter below the bound.\<close>

lemma Repeater_for_counted:
  "n = nat (bound - i) \<Longrightarrow>
   Repeater_for (counted (returning c)) bound i (w, k) =
     Some (Returns (world_after c n w, k + n))"
proof (induction n arbitrary: i w k)
  case 0
  then show ?case by (simp add: world_after_0)
next
  case (Suc n)
  from Suc.prems have lt: "i < bound" and n: "n = nat (bound - (i + 1))" by linarith+
  have "Repeater_for (counted (returning c)) bound i (w, k) =
        Repeater_for (counted (returning c)) bound (i + 1) (snd (c w), Suc k)"
    using lt by (subst Repeater_for.simps) (simp add: counted_returning)
  also have "\<dots> = Some (Returns (world_after c n (snd (c w)), Suc k + n))"
    by (rule Suc.IH [OF n])
  finally show ?case by (simp add: world_after_Suc)
qed

text \<open>
  C5. A Repeater with a positive count \<open>n\<close> over a child that always returns: the
  call counter of the child goes up by exactly \<open>n\<close>, the world is the one after \<open>n\<close>
  calls, and the verdict is that of call number \<open>n\<close>; the verdicts of the calls
  before it do not appear in the result.
\<close>

theorem Repeater_run_positive:
  "0 < n \<Longrightarrow>
   Repeater_run \<lparr>child = counted (returning c), numRepeats = n\<rparr> (w, k) =
     Some (Returns (nth_result c (nat n - 1) w, (world_after c (nat n) w, k + nat n)))"
proof -
  assume pos: "0 < n"
  have m: "nat n - 1 = nat (n - 1 - 0)" using pos by simp
  have "Repeater_for (counted (returning c)) (n - 1) 0 (w, k) =
        Some (Returns (world_after c (nat n - 1) w, k + (nat n - 1)))"
    by (rule Repeater_for_counted [OF m])
  moreover have "Suc (nat n - 1) = nat n" using pos by simp
  ultimately show ?thesis
    using pos
    by (simp add: Repeater_run_def NOT_FOUND_def getChild_def counted_returning
        nth_result_def world_after_step [symmetric])
qed

theorem Repeater_run_positive_witness:
  "(0::int) < 3 \<and>
   Repeater_run \<lparr>child = counted (returning (\<lambda>n::nat. (even n, Suc n))), numRepeats = 3\<rparr> (0, 0) =
     Some (Returns (True, (3, 3)))"
  using Repeater_run_positive [of 3 "\<lambda>n::nat. (even n, Suc n)" 0 0]
  by (simp add: nth_result_def world_after_def eval_nat_numeral)

text \<open>
  C10. A Repeater with count 0: the bound of the for loop is -1, the loop body never
  runs, and \<^verbatim>\<open>return getChild()->run();\<close> evaluates the child exactly once (the call
  counter goes up by one) and returns the verdict of that call.
\<close>

theorem Repeater_run_zero:
  "c w = Some (Returns (b, w')) \<Longrightarrow>
   Repeater_run \<lparr>child = counted c, numRepeats = 0\<rparr> (w, k) = Some (Returns (b, (w', Suc k)))"
  by (simp add: Repeater_run_def NOT_FOUND_def getChild_def counted_def)

theorem Repeater_run_zero_witness:
  "Repeater_run \<lparr>child = counted (returning (\<lambda>n::nat. (False, Suc n))), numRepeats = 0\<rparr> (4, 0) =
     Some (Returns (False, (5, 1)))"
  using Repeater_run_zero [of "returning (\<lambda>n::nat. (False, Suc n))" 4 False 5 0]
  by (simp add: returning_def)

section \<open>RepeatUntilFail\<close>

text \<open>
  C6. A child that always returns and whose results from the world \<open>w\<close> on are \<open>k\<close>
  times true and then false: \<^verbatim>\<open>RepeatUntilFail::run\<close> returns, its verdict is true,
  the call counter of the child has gone up by exactly \<open>k + 1\<close>, and the world is the
  one after \<open>k + 1\<close> calls.
\<close>

theorem RepeatUntilFail_run_counts:
  assumes "\<forall>i<k. nth_result c i w" and "\<not> nth_result c k w"
  shows "RepeatUntilFail_run \<lparr>child = counted (returning c)\<rparr> (w, m) =
     Some (Returns (True, (world_after c (Suc k) w, m + Suc k)))"
  using assms
proof (induction k arbitrary: w m)
  case 0
  then have "\<not> fst (c w)" by (simp add: nth_result_def world_after_0)
  then show ?case
    by (subst RepeatUntilFail_run.simps)
       (simp add: getChild_def counted_returning world_after_Suc world_after_0)
next
  case (Suc k)
  from Suc.prems(1) have "nth_result c 0 w" by blast
  then have first: "fst (c w)" by (simp add: nth_result_def world_after_0)
  have "\<forall>i<k. nth_result c i (snd (c w))"
    using Suc.prems(1) by (auto simp: nth_result_Suc [symmetric])
  moreover have "\<not> nth_result c k (snd (c w))"
    using Suc.prems(2) by (simp add: nth_result_Suc)
  ultimately have IH: "RepeatUntilFail_run \<lparr>child = counted (returning c)\<rparr> (snd (c w), Suc m) =
     Some (Returns (True, (world_after c (Suc k) (snd (c w)), Suc m + Suc k)))"
    by (rule Suc.IH)
  have "RepeatUntilFail_run \<lparr>child = counted (returning c)\<rparr> (w, m) =
        RepeatUntilFail_run \<lparr>child = counted (returning c)\<rparr> (snd (c w), Suc m)"
    using first
    by (subst RepeatUntilFail_run.simps) (simp add: getChild_def counted_returning)
  with IH show ?case by (simp add: world_after_Suc [of c "Suc k"])
qed

theorem RepeatUntilFail_run_counts_witness:
  "RepeatUntilFail_run \<lparr>child = counted (returning (\<lambda>n::nat. (n < 2, Suc n)))\<rparr> (0, 0) =
     Some (Returns (True, (3, 3)))"
proof -
  let ?c = "\<lambda>n::nat. (n < 2, Suc n)"
  have w: "world_after ?c i 0 = i" for i
    by (induction i) (simp_all add: world_after_def)
  have h1: "\<forall>i<2. nth_result ?c i 0"
    by (simp add: nth_result_def w)
  have h2: "\<not> nth_result ?c 2 0"
    by (simp add: nth_result_def w)
  show ?thesis
    using RepeatUntilFail_run_counts [of 2 ?c 0 0, OF h1 h2]
    by (simp add: w)
qed

section \<open>GetStack\<close>

text \<open>
  C7. \<^verbatim>\<open>GetStack\<close> copies a source stack into another stack, the destination.
  Every \<^verbatim>\<open>GetStack::run\<close> returns true, and all it does to the world is to give
  the destination the elements the source had, under the bound item when that is not
  null. The destination holds a copy: with source and destination two stacks, giving
  the source any new contents \<open>xs\<close> afterwards leaves the destination with the
  elements the run gave it.
\<close>

theorem GetStack_run_snapshot:
  "GetStack_run self w =
     Some (Returns (True,
       assign_stack (stack self)
         ((if GetStack.object self \<noteq> nullptr then [GetStack.object self] else []) @
          stacks w (obtainedStack self)) w))
   \<and> (stack self \<noteq> obtainedStack self \<longrightarrow>
        stacks (assign_stack (obtainedStack self) xs
                 (assign_stack (stack self)
                    ((if GetStack.object self \<noteq> nullptr then [GetStack.object self] else []) @
                     stacks w (obtainedStack self)) w))
          (stack self) =
        (if GetStack.object self \<noteq> nullptr then [GetStack.object self] else []) @
        stacks w (obtainedStack self))"
  by (simp add: GetStack_run_def Let_def assign_stack_def)

theorem GetStack_run_snapshot_witness:
  "GetStack_run \<lparr>stack = 0, obtainedStack = 1, GetStack.object = Ptr 7\<rparr>
      (assign_stack 1 [Ptr 5, Ptr 6] world0) =
     Some (Returns (True, assign_stack 0 [Ptr 7, Ptr 5, Ptr 6] (assign_stack 1 [Ptr 5, Ptr 6] world0)))
   \<and> stacks (assign_stack 1 []
        (assign_stack 0 [Ptr 7, Ptr 5, Ptr 6] (assign_stack 1 [Ptr 5, Ptr 6] world0))) 0 =
      [Ptr 7, Ptr 5, Ptr 6]"
  using GetStack_run_snapshot
    [of "\<lparr>stack = 0, obtainedStack = 1, GetStack.object = Ptr 7\<rparr>"
        "assign_stack 1 [Ptr 5, Ptr 6] world0" "[]"]
  by (simp add: assign_stack_def world0_def)

section \<open>Succeeder\<close>

text \<open>
  C8. Whenever the call of the child returns, with whatever verdict \<open>b\<close>,
  \<^verbatim>\<open>Succeeder::run\<close> has evaluated the child exactly once (the call counter has gone
  up by one, the world is the one the child left) and returns true.
\<close>

theorem Succeeder_run_once:
  "c w = Some (Returns (b, w')) \<Longrightarrow>
   Succeeder_run \<lparr>child = counted c\<rparr> (w, k) = Some (Returns (True, (w', Suc k)))"
  by (simp add: Succeeder_run_def getChild_def counted_def)

theorem Succeeder_run_once_witness:
  "Succeeder_run \<lparr>child = counted (returning (\<lambda>n::nat. (False, Suc n)))\<rparr> (4, 0) =
     Some (Returns (True, (5, 1)))"
  using Succeeder_run_once [of "returning (\<lambda>n::nat. (False, Suc n))" 4 False 5 0]
  by (simp add: returning_def)

section \<open>RandomSelector\<close>

lemma fixed_verdict_unique: "fixed_verdict c b \<Longrightarrow> fixed_verdict c b' \<Longrightarrow> b = b'"
  unfolding fixed_verdict_def by (metis Pair_inject option.inject outcome.inject)

lemma fixed_verdict_stub: "fixed_verdict (stub b f) b' = (b = b')"
  by (auto simp: fixed_verdict_def stub_def returning_def)

text \<open>
  Over children with fixed verdicts the loop returns, in whatever order the children
  stand, and its verdict is true iff one of them has the verdict true.
\<close>

lemma Selector_loop_fixed:
  "\<forall>c\<in>set ds. \<exists>b. fixed_verdict c b \<Longrightarrow>
   \<exists>w'. Selector_loop ds w = Some (Returns (\<exists>c\<in>set ds. fixed_verdict c True, w'))"
proof (induction ds arbitrary: w)
  case Nil
  show ?case by simp
next
  case (Cons d ds)
  from Cons.prems obtain b where b: "fixed_verdict d b" by auto
  then obtain w1 where d: "d w = Some (Returns (b, w1))"
    unfolding fixed_verdict_def by blast
  show ?case
  proof (cases b)
    case True
    with b d show ?thesis by auto
  next
    case False
    with b have no: "\<not> fixed_verdict d True"
      using fixed_verdict_unique by blast
    from Cons.prems have "\<forall>c\<in>set ds. \<exists>b. fixed_verdict c b" by simp
    from Cons.IH [OF this, of w1] obtain w' where
      "Selector_loop ds w1 = Some (Returns (\<exists>c\<in>set ds. fixed_verdict c True, w'))" ..
    with d False no show ?thesis by simp
  qed
qed

lemma stub_apply: "stub b f w = Some (Returns (b, f w))"
  by (simp add: stub_def returning_def)

lemma fixed_verdict_stubs: "\<forall>c\<in>set (stubs ps). \<exists>b. fixed_verdict c b"
proof
  fix c assume "c \<in> set (stubs ps)"
  then obtain p where "c = stub (fst p) (snd p)"
    by (auto simp: stubs_def)
  then have "fixed_verdict c (fst p)"
    by (simp add: fixed_verdict_stub)
  then show "\<exists>b. fixed_verdict c b" ..
qed

lemma fixed_verdict_stubs_True:
  "(\<exists>c\<in>set (stubs ps). fixed_verdict c True) = (True \<in> set (map fst ps))"
  by (simp add: stubs_def fixed_verdict_stub image_iff)

text \<open>
  C9. Whenever \<^verbatim>\<open>RandomSelector::run\<close> returns, the composite after the call is the
  composite before it: its \<open>children\<close> are the same elements in the same order (the
  shuffle has worked on \<open>temp\<close>, the copy made by \<open>childrenShuffled\<close>). And when
  \<^verbatim>\<open>std::random_shuffle\<close> reorders the vector it is given (its result is a
  permutation of it) and the children have fixed verdicts, the run returns, and its
  verdict is true iff at least one child has the verdict true.
\<close>

theorem RandomSelector_run_frame:
  "(RandomSelector_run random_shuffle self w = Some (Returns (b, self', w')) \<longrightarrow> self' = self)
   \<and> (mset (fst (random_shuffle v (stubs ps))) = mset (stubs ps) \<longrightarrow>
       (\<exists>v'. RandomSelector_run random_shuffle \<lparr>children = stubs ps\<rparr> v =
          Some (Returns (True \<in> set (map fst ps), \<lparr>children = stubs ps\<rparr>, v'))))"
proof (intro conjI impI)
  assume "RandomSelector_run random_shuffle self w = Some (Returns (b, self', w'))"
  then show "self' = self"
    by (simp add: RandomSelector_run_def split: prod.splits option.splits outcome.splits)
next
  assume perm: "mset (fst (random_shuffle v (stubs ps))) = mset (stubs ps)"
  obtain temp v1 where sh: "random_shuffle v (stubs ps) = (temp, v1)"
    by (cases "random_shuffle v (stubs ps)")
  with perm have "mset temp = mset (stubs ps)" by simp
  then have eq: "set temp = set (stubs ps)" by (rule mset_eq_setD)
  have "\<forall>c\<in>set temp. \<exists>b. fixed_verdict c b"
    unfolding eq by (rule fixed_verdict_stubs)
  from Selector_loop_fixed [OF this, of v1] obtain v' where
    "Selector_loop temp v1 = Some (Returns (\<exists>c\<in>set temp. fixed_verdict c True, v'))" ..
  then have "Selector_loop temp v1 = Some (Returns (True \<in> set (map fst ps), v'))"
    by (simp only: eq fixed_verdict_stubs_True)
  with sh show "\<exists>v'. RandomSelector_run random_shuffle \<lparr>children = stubs ps\<rparr> v =
          Some (Returns (True \<in> set (map fst ps), \<lparr>children = stubs ps\<rparr>, v'))"
    by (simp add: RandomSelector_run_def childrenShuffled_def)
qed

theorem RandomSelector_run_frame_witness:
  "RandomSelector_run (\<lambda>w xs. (rev xs, Suc w)) \<lparr>children = stubs [(False, Suc), (True, (\<lambda>n. 2 * n))]\<rparr> (0::nat) =
      Some (Returns (True, \<lparr>children = stubs [(False, Suc), (True, (\<lambda>n. 2 * n))]\<rparr>, 2))"
proof -
  let ?ps = "[(False, Suc), (True, (\<lambda>n. 2 * n))] :: (bool \<times> (nat \<Rightarrow> nat)) list"
  let ?shuffle = "\<lambda>(w::nat) (xs::nat Node list). (rev xs, Suc w)"
  have run: "RandomSelector_run ?shuffle \<lparr>children = stubs ?ps\<rparr> 0 =
      Some (Returns (True, \<lparr>children = stubs ?ps\<rparr>, 2))"
    by (simp add: RandomSelector_run_def childrenShuffled_def stubs_def stub_apply)
  have "mset (fst (?shuffle 0 (stubs ?ps))) = mset (stubs ?ps)"
    by simp
  with run RandomSelector_run_frame
      [of ?shuffle "\<lparr>children = stubs ?ps\<rparr>" 0 True "\<lparr>children = stubs ?ps\<rparr>" 2 0 ?ps]
  show ?thesis by simp
qed

end
